theory Spec2Isabelle
  imports Main
begin

section \<open>JavaScript values used by the services\<close>

text \<open>
  An \<^verbatim>\<open>Error\<close> object is identified by its message.  A field that TypeScript
  types as \<^verbatim>\<open>string | undefined\<close> (or \<^verbatim>\<open>| null\<close>, \<^verbatim>\<open>| false\<close>) is a
  \<^typ>\<open>string option\<close>.  The source tests such fields with \<^verbatim>\<open>!x\<close> and
  \<^verbatim>\<open>x || d\<close>, which treat the empty string like a missing value.
\<close>

datatype err = Error string

fun message :: "err \<Rightarrow> string" where
  "message (Error m) = m"

text \<open>\<^verbatim>\<open>!!x\<close> for an optional string.\<close>

fun truthy :: "string option \<Rightarrow> bool" where
  "truthy None = False"
| "truthy (Some s) = (s \<noteq> [])"

text \<open>\<^verbatim>\<open>x || d\<close> for an optional string \<open>x\<close> and a string \<open>d\<close>.\<close>

fun or_else :: "string option \<Rightarrow> string \<Rightarrow> string" where
  "or_else None d = d"
| "or_else (Some s) d = (if s = [] then d else s)"

text \<open>\<^verbatim>\<open>x || y\<close> for two optional strings.\<close>

fun or_opt :: "string option \<Rightarrow> string option \<Rightarrow> string option" where
  "or_opt None y = y"
| "or_opt (Some s) y = (if s = [] then y else Some s)"

section \<open>\<^verbatim>\<open>openai.service.ts\<close>\<close>

datatype label = SystemGenerated | HumanGenerated

record EmailClassification =
  classification :: label
  confidence :: int
  reasoning :: string
  systemIndicators :: "string list"
  humanIndicators :: "string list"

text \<open>The calls of the service's logger, one constructor for each call site.\<close>

datatype openai_log =
    ErrKeyNotFound
  | LogKeyFound
  | LogKeyLength nat
  | LogInitialized
  | LogTesting
  | LogTestSuccessful
  | ErrTestNoResponse
  | ErrTestFailed string

text \<open>The client object built by \<^verbatim>\<open>new OpenAI({ apiKey })\<close>.\<close>

record OpenAI =
  apiKey :: string

text \<open>The service's only field, \<^verbatim>\<open>private openai: OpenAI\<close>, unset until initialisation.\<close>

record OpenAIService =
  openai :: "OpenAI option"

text \<open>
  \<^verbatim>\<open>onModuleInit\<close> reads \<^verbatim>\<open>process.env.OPENAI_API_KEY\<close>.  The result is the log
  written and either the error thrown or the service with its client.
\<close>

definition onModuleInit ::
  "(string \<rightharpoonup> string) \<Rightarrow> OpenAIService \<Rightarrow> openai_log list \<times> (err + OpenAIService)" where
  "onModuleInit env this =
     (let apiKey = env ''OPENAI_API_KEY'' in
      if \<not> truthy apiKey
      then ([ErrKeyNotFound], Inl (Error ''OPENAI_API_KEY is required''))
      else ([LogKeyFound, LogKeyLength (length (the apiKey)), LogInitialized],
            Inr (this\<lparr>openai := Some \<lparr>apiKey = the apiKey\<rparr>\<rparr>)))"

text \<open>
  The part of a chat completion that \<^verbatim>\<open>testConnection\<close> reads:
  \<^verbatim>\<open>response.choices[0]?.message?.content\<close>.
\<close>

record ChatMessage =
  content :: "string option"

record Choice =
  message_of :: "ChatMessage option"

record ChatCompletion =
  choices :: "Choice list"

text \<open>\<^verbatim>\<open>response.choices[0]?.message?.content\<close>: each step may be undefined.\<close>

definition first_content :: "ChatCompletion \<Rightarrow> string option" where
  "first_content response =
     (case choices response of
        [] \<Rightarrow> None
      | c # _ \<Rightarrow> (case message_of c of None \<Rightarrow> None | Some m \<Rightarrow> content m))"

text \<open>
  The body of the \<^verbatim>\<open>try\<close> block of \<^verbatim>\<open>testConnection\<close>.  The awaited request
  either throws (\<open>Inl\<close>) or yields a completion.
\<close>

definition testConnection_try :: "err + ChatCompletion \<Rightarrow> openai_log list \<times> (err + bool)" where
  "testConnection_try reply =
     (case reply of
        Inl e \<Rightarrow> ([LogTesting], Inl e)
      | Inr response \<Rightarrow>
          (let hasResponse = truthy (first_content response) in
           ([LogTesting, if hasResponse then LogTestSuccessful else ErrTestNoResponse],
            Inr hasResponse)))"

text \<open>\<^verbatim>\<open>testConnection\<close>: the \<^verbatim>\<open>catch\<close> clause logs the error and returns false.\<close>

definition testConnection :: "err + ChatCompletion \<Rightarrow> openai_log list \<times> (err + bool)" where
  "testConnection reply =
     (case testConnection_try reply of
        (logs, Inl e) \<Rightarrow> (logs @ [ErrTestFailed (message e)], Inr False)
      | (logs, Inr b) \<Rightarrow> (logs, Inr b))"

section \<open>The report printed for a message\<close>

text \<open>
  The fields of mailparser's result that the service reads.  An address object has a
  \<^verbatim>\<open>text\<close>; a \<^verbatim>\<open>Date\<close> is an object, so it is truthy whenever it is there, and
  is kept as the text it prints as.
\<close>

record AddressObject =
  text_of :: "string option"

datatype Date = Date string

fun date_string :: "Date \<Rightarrow> string" where
  "date_string (Date s) = s"

record ParsedMail =
  from_addr :: "AddressObject option"
  to_addr :: "AddressObject option"
  subject :: "string option"
  date :: "Date option"
  text_body :: "string option"
  html_body :: "string option"

text \<open>\<^verbatim>\<open>parsed.from?.text\<close>.\<close>

definition addr_text :: "AddressObject option \<Rightarrow> string option" where
  "addr_text a = (case a of None \<Rightarrow> None | Some x \<Rightarrow> text_of x)"

text \<open>\<^verbatim>\<open>parsed.text || parsed.html || 'No content available'\<close>.\<close>

definition body_of :: "ParsedMail \<Rightarrow> string" where
  "body_of parsed = or_else (or_opt (text_body parsed) (html_body parsed)) ''No content available''"

definition from_of :: "ParsedMail \<Rightarrow> string" where
  "from_of parsed = or_else (addr_text (from_addr parsed)) ''Unknown''"

definition to_of :: "ParsedMail \<Rightarrow> string" where
  "to_of parsed = or_else (addr_text (to_addr parsed)) ''Unknown''"

definition subject_of :: "ParsedMail \<Rightarrow> string" where
  "subject_of parsed = or_else (subject parsed) ''No Subject''"

text \<open>\<^verbatim>\<open>parsed.date || 'Unknown Date'\<close>, inside a template string.\<close>

definition date_of :: "ParsedMail \<Rightarrow> string" where
  "date_of parsed = (case date parsed of None \<Rightarrow> ''Unknown Date'' | Some d \<Rightarrow> date_string d)"

text \<open>
  The lines written to the console.  The lines of the report of a message are text; the
  number of the message is kept as a number, and the lines of the classification block
  that hold symbols outside ASCII are named by what they show.
\<close>

datatype console =
    Line string
  | EmailNumber nat
  | ResponseReceived
  | Banner label
  | ResultsHeader
  | TypeLine label
  | ConfidenceLine int string
  | ReasoningLine string
  | SystemIndicatorLine nat string
  | HumanIndicatorLine nat string
  | ClassificationComplete
  | ClassificationError
  | ErrorDetails err
  | ClassificationFailed

definition rule80 :: "char \<Rightarrow> string" where
  "rule80 c = replicate 80 c"

text \<open>The report header and body, in the order of the \<^verbatim>\<open>console.log\<close> calls.\<close>

definition render_report :: "nat \<Rightarrow> ParsedMail \<Rightarrow> console list" where
  "render_report emailCount parsed =
     [Line (CHR 0x0A # rule80 CHR ''=''),
      EmailNumber emailCount,
      Line (rule80 CHR ''=''),
      Line (''From: '' @ from_of parsed),
      Line (''To: '' @ to_of parsed),
      Line (''Subject: '' @ subject_of parsed),
      Line (''Date: '' @ date_of parsed),
      Line (rule80 CHR ''-''),
      Line ''BODY:'',
      Line (rule80 CHR ''-''),
      Line (body_of parsed),
      Line (rule80 CHR ''-'')]"

text \<open>
  \<^verbatim>\<open>confidence >= 80 ? '(High)' : confidence >= 60 ? '(Medium)' : '(Low)'\<close>
\<close>

definition confidence_band :: "int \<Rightarrow> string" where
  "confidence_band c = (if c \<ge> 80 then ''(High)'' else if c \<ge> 60 then ''(Medium)'' else ''(Low)'')"

text \<open>\<^verbatim>\<open>xs.forEach((indicator, i) => console.log(`${i + 1}. ${indicator}`))\<close>\<close>

fun numbered :: "(nat \<Rightarrow> string \<Rightarrow> console) \<Rightarrow> nat \<Rightarrow> string list \<Rightarrow> console list" where
  "numbered f i [] = []"
| "numbered f i (x # xs) = f (i + 1) x # numbered f (i + 1) xs"

text \<open>
  The classification block.  The object is only read; it is returned beside the lines
  so that what the block leaves of it can be stated.
\<close>

definition render_classification :: "EmailClassification \<Rightarrow> console list \<times> EmailClassification" where
  "render_classification c =
     ([ResponseReceived,
       Banner (classification c),
       ResultsHeader,
       Line (rule80 CHR ''-''),
       TypeLine (classification c),
       ConfidenceLine (confidence c) (confidence_band (confidence c)),
       ReasoningLine (reasoning c)]
      @ (if length (systemIndicators c) > 0
         then numbered SystemIndicatorLine 0 (systemIndicators c) else [])
      @ (if length (humanIndicators c) > 0
         then numbered HumanIndicatorLine 0 (humanIndicators c) else [])
      @ [ClassificationComplete, Line (rule80 CHR ''='' @ [CHR 0x0A])],
      c)"

section \<open>\<^verbatim>\<open>email.service.ts\<close>: the service and its effects\<close>

text \<open>
  \<^verbatim>\<open>setInterval\<close> returns a \<^verbatim>\<open>Timeout\<close> object, which is never falsy; the
  number tells two of them apart.
\<close>

datatype Timeout = Timeout nat

record EmailService =
  intervalId :: "Timeout option"
  processedEmails :: "string set"
  isMonitoring :: bool

definition subjectLine :: string where
  "subjectLine = ''read emails from this subject line''"

definition checkInterval :: nat where
  "checkInterval = 10000"

text \<open>\<^verbatim>\<open>uid.toString()\<close> of a message number: its decimal digits.\<close>

fun toString :: "nat \<Rightarrow> string" where
  "toString n =
     (if n < 10 then [char_of (48 + n)]
      else toString (n div 10) @ [char_of (48 + n mod 10)])"

declare toString.simps [simp del]

datatype email_log =
    LogInitStarting
  | LogShuttingDown
  | WarnAlreadyRunning
  | LogStartingMonitoring string
  | LogCheckingEvery nat
  | LogMonitoringStopped
  | ErrDuringCheck string
  | LogPlayingSound
  | LogTestingSound
  | LogConnected
  | ErrOpeningInbox err
  | LogInboxOpened nat
  | ErrSearching err
  | LogNoNewEmails string
  | LogNoNewUnprocessed string
  | LogPlayingTestSound
  | LogFound nat string
  | LogProcessing nat nat
  | ErrParsing err
  | ErrClassifying string
  | ErrStack
  | ErrFetch err
  | LogFinished nat
  | ErrImapConnection err
  | LogImapEnded

text \<open>
  What a handler does to the world outside the service, in the order of the calls.
  The actions that belong to one fetched message carry the number of the message (the
  order of its \<^verbatim>\<open>message\<close> event, from 0).
\<close>

datatype action =
    Log email_log
  | Beeps
  | ImapConnect
  | ImapOpenBox string bool
  | ImapSearch string
  | ImapFetch "nat list"
  | ImapEnd
  | Resolve
  | Reject err
  | SimpleParser nat string
  | Report nat "console list"
  | ClassifyEmail nat string string string
  | ClassificationBlock nat "console list"
  | ErrorBlock nat "console list"
  | ProcessedAdd nat string
  | SetInterval Timeout nat
  | ClearInterval Timeout
  | Respond string
  | RespondStatus string bool

text \<open>
  \<^verbatim>\<open>playNotificationSound\<close> logs and starts the sequence of ten beeps; the later
  beeps run from timers of their own and touch nothing of the service.
\<close>

definition playNotificationSound :: "action list" where
  "playNotificationSound = [Log LogPlayingSound, Beeps]"

definition testNotificationSound :: "action list" where
  "testNotificationSound = Log LogTestingSound # playNotificationSound"

section \<open>One call of \<^verbatim>\<open>readEmailsBySubject\<close>\<close>

text \<open>
  The call builds a promise and an IMAP connection and registers callbacks; everything
  else happens when the libraries call back.  A cycle is the closure of one call: its
  arguments, its local variables, which callbacks are registered or awaited, and how
  the promise was settled.
\<close>

datatype outcome = Resolved | Rejected err

text \<open>
  A fetched message: the \<^verbatim>\<open>buffer\<close> of its \<^verbatim>\<open>message\<close> handler, the body
  streams whose \<^verbatim>\<open>end\<close> has not fired, whether \<^verbatim>\<open>once('attributes')\<close> is still
  registered, and the calls of \<^verbatim>\<open>simpleParser\<close> and \<^verbatim>\<open>classifyEmail\<close> that have
  not called back.
\<close>

record msg =
  buffer :: string
  streams :: nat
  attributesArmed :: bool
  parsing :: nat
  classifying :: nat

record cycle =
  subjectArg :: string
  isManualCheck :: bool
  readyArmed :: bool
  errorArmed :: bool
  endArmed :: bool
  openBoxPending :: bool
  searchPending :: bool
  fetching :: bool
  fetchErrorArmed :: bool
  fetchEndArmed :: bool
  newEmails :: "nat list"
  emailCount :: nat
  msgs :: "msg list"
  settled :: "outcome option"

text \<open>What the libraries call back with.\<close>

datatype imap_event =
    Ready
  | ImapError err
  | ImapEnded
  | OpenBoxCb "err option" nat
  | SearchCb "err option" "nat list option"
  | FetchMessage
  | MsgBody nat
  | StreamData nat string
  | StreamEnd nat
  | ParserCb nat "err option" ParsedMail
  | ClassifyDone nat "err + EmailClassification"
  | MsgAttributes nat nat
  | MsgEnd nat
  | FetchError err
  | FetchEnd

text \<open>
  The synchronous part of the call: the promise executor registers \<^verbatim>\<open>ready\<close>,
  \<^verbatim>\<open>error\<close> and \<^verbatim>\<open>end\<close> and connects.
\<close>

definition readEmailsBySubject :: "string \<Rightarrow> bool \<Rightarrow> cycle \<times> action list" where
  "readEmailsBySubject subj manual =
     (\<lparr>subjectArg = subj, isManualCheck = manual,
       readyArmed = True, errorArmed = True, endArmed = True,
       openBoxPending = False, searchPending = False,
       fetching = False, fetchErrorArmed = False, fetchEndArmed = False,
       newEmails = [], emailCount = 0, msgs = [], settled = None\<rparr>,
      [ImapConnect])"

text \<open>A promise keeps its first settlement.\<close>

definition resolve :: "cycle \<Rightarrow> cycle" where
  "resolve c = (case settled c of None \<Rightarrow> c\<lparr>settled := Some Resolved\<rparr> | Some _ \<Rightarrow> c)"

definition reject :: "err \<Rightarrow> cycle \<Rightarrow> cycle" where
  "reject e c = (case settled c of None \<Rightarrow> c\<lparr>settled := Some (Rejected e)\<rparr> | Some _ \<Rightarrow> c)"

text \<open>\<^verbatim>\<open>imap.once('ready', ...)\<close>\<close>

definition on_ready :: "cycle \<Rightarrow> cycle \<times> action list" where
  "on_ready c =
     (if readyArmed c
      then (c\<lparr>readyArmed := False, openBoxPending := True\<rparr>,
            [Log LogConnected, ImapOpenBox ''INBOX'' False])
      else (c, []))"

text \<open>\<^verbatim>\<open>imap.once('error', ...)\<close>\<close>

definition on_error :: "err \<Rightarrow> cycle \<Rightarrow> cycle \<times> action list" where
  "on_error e c =
     (if errorArmed c
      then (reject e (c\<lparr>errorArmed := False\<rparr>), [Log (ErrImapConnection e), Reject e])
      else (c, []))"

text \<open>\<^verbatim>\<open>imap.once('end', ...)\<close>\<close>

definition on_end :: "cycle \<Rightarrow> cycle \<times> action list" where
  "on_end c =
     (if endArmed c then (c\<lparr>endArmed := False\<rparr>, [Log LogImapEnded]) else (c, []))"

text \<open>The callback of \<^verbatim>\<open>imap.openBox\<close>.\<close>

definition on_openBox :: "err option \<Rightarrow> nat \<Rightarrow> cycle \<Rightarrow> cycle \<times> action list" where
  "on_openBox er tot c =
     (if openBoxPending c
      then (let c1 = c\<lparr>openBoxPending := False\<rparr> in
            case er of
              Some e \<Rightarrow> (reject e c1, [Log (ErrOpeningInbox e), Reject e])
            | None \<Rightarrow> (c1\<lparr>searchPending := True\<rparr>,
                       [Log (LogInboxOpened tot), ImapSearch (subjectArg c)]))
      else (c, []))"

text \<open>
  The callback of \<^verbatim>\<open>imap.search\<close>: the early exits, the filter against the
  processed set, the notification for each new message, and the fetch.
\<close>

definition on_search ::
  "err option \<Rightarrow> nat list option \<Rightarrow> cycle \<Rightarrow> EmailService \<Rightarrow> cycle \<times> action list" where
  "on_search er results c this =
     (if searchPending c
      then (let c1 = c\<lparr>searchPending := False\<rparr> in
            case er of
              Some e \<Rightarrow> (reject e c1, [Log (ErrSearching e), Reject e])
            | None \<Rightarrow>
               (case results of
                  None \<Rightarrow> (resolve c1, [Log (LogNoNewEmails (subjectArg c)), ImapEnd, Resolve])
                | Some rs \<Rightarrow>
                    if length rs = 0
                    then (resolve c1, [Log (LogNoNewEmails (subjectArg c)), ImapEnd, Resolve])
                    else (let new = filter (\<lambda>uid. toString uid \<notin> processedEmails this) rs in
                          if length new = 0
                          then (resolve c1,
                                [Log (LogNoNewUnprocessed (subjectArg c))]
                                @ (if isManualCheck c
                                   then Log LogPlayingTestSound # playNotificationSound else [])
                                @ [ImapEnd, Resolve])
                          else (c1\<lparr>newEmails := new, emailCount := 0, fetching := True,
                                    fetchErrorArmed := True, fetchEndArmed := True\<rparr>,
                                [Log (LogFound (length new) (subjectArg c))]
                                @ concat (replicate (length new) playNotificationSound)
                                @ [ImapFetch new]))))
      else (c, []))"

text \<open>\<^verbatim>\<open>fetch.on('message', ...)\<close>\<close>

definition on_message :: "cycle \<Rightarrow> cycle \<times> action list" where
  "on_message c =
     (if fetching c
      then (c\<lparr>emailCount := emailCount c + 1,
              msgs := msgs c @ [\<lparr>buffer = [], streams = 0, attributesArmed = True,
                                 parsing = 0, classifying = 0\<rparr>]\<rparr>,
            [Log (LogProcessing (emailCount c + 1) (length (newEmails c)))])
      else (c, []))"

text \<open>\<^verbatim>\<open>msg.on('body', ...)\<close> and the handlers of the stream.\<close>

definition on_body :: "nat \<Rightarrow> cycle \<Rightarrow> cycle \<times> action list" where
  "on_body k c =
     (if k < length (msgs c)
      then (c\<lparr>msgs := (msgs c)[k := (msgs c ! k)\<lparr>streams := streams (msgs c ! k) + 1\<rparr>]\<rparr>, [])
      else (c, []))"

definition on_data :: "nat \<Rightarrow> string \<Rightarrow> cycle \<Rightarrow> cycle \<times> action list" where
  "on_data k chunk c =
     (if k < length (msgs c) \<and> streams (msgs c ! k) > 0
      then (c\<lparr>msgs := (msgs c)[k := (msgs c ! k)\<lparr>buffer := buffer (msgs c ! k) @ chunk\<rparr>]\<rparr>, [])
      else (c, []))"

definition on_stream_end :: "nat \<Rightarrow> cycle \<Rightarrow> cycle \<times> action list" where
  "on_stream_end k c =
     (if k < length (msgs c) \<and> streams (msgs c ! k) > 0
      then (c\<lparr>msgs := (msgs c)[k := (msgs c ! k)\<lparr>streams := streams (msgs c ! k) - 1,
                                                   parsing := parsing (msgs c ! k) + 1\<rparr>]\<rparr>,
            [SimpleParser k (buffer (msgs c ! k))])
      else (c, []))"

text \<open>
  The callback of \<^verbatim>\<open>simpleParser\<close>, up to the \<^verbatim>\<open>await\<close>: a parse error is
  logged and ends the callback; otherwise the report is printed and the classifier is
  called.  (The debugging lines and the lines that announce the analysis are left out.)
\<close>

definition on_parsed :: "nat \<Rightarrow> err option \<Rightarrow> ParsedMail \<Rightarrow> cycle \<Rightarrow> cycle \<times> action list" where
  "on_parsed k er parsed c =
     (if k < length (msgs c) \<and> parsing (msgs c ! k) > 0
      then (let m = (msgs c ! k)\<lparr>parsing := parsing (msgs c ! k) - 1\<rparr> in
            case er of
              Some e \<Rightarrow> (c\<lparr>msgs := (msgs c)[k := m]\<rparr>, [Log (ErrParsing e)])
            | None \<Rightarrow>
                (c\<lparr>msgs := (msgs c)[k := m\<lparr>classifying := classifying m + 1\<rparr>]\<rparr>,
                 [Report k (render_report (emailCount c) parsed),
                  ClassifyEmail k (from_of parsed) (subject_of parsed) (body_of parsed)]))
      else (c, []))"

text \<open>
  The rest of the callback, after the \<^verbatim>\<open>await\<close>: the classification block, or
  the \<^verbatim>\<open>catch\<close> clause when \<^verbatim>\<open>classifyEmail\<close> threw.
\<close>

definition on_classified ::
  "nat \<Rightarrow> err + EmailClassification \<Rightarrow> cycle \<Rightarrow> cycle \<times> action list" where
  "on_classified k r c =
     (if k < length (msgs c) \<and> classifying (msgs c ! k) > 0
      then (c\<lparr>msgs := (msgs c)[k := (msgs c ! k)\<lparr>classifying := classifying (msgs c ! k) - 1\<rparr>]\<rparr>,
            case r of
              Inr cl \<Rightarrow> [ClassificationBlock k (fst (render_classification cl))]
            | Inl e \<Rightarrow> [ErrorBlock k [ClassificationError, Line (rule80 CHR ''-''), ErrorDetails e],
                        Log (ErrClassifying (message e)), Log ErrStack,
                        ErrorBlock k [ClassificationFailed, Line (rule80 CHR ''='' @ [CHR 0x0A])]])
      else (c, []))"

text \<open>\<^verbatim>\<open>msg.once('attributes', ...)\<close>: the only write to the processed set.\<close>

definition on_attributes ::
  "nat \<Rightarrow> nat \<Rightarrow> cycle \<Rightarrow> EmailService \<Rightarrow> (cycle \<times> EmailService) \<times> action list" where
  "on_attributes k uid c this =
     (if k < length (msgs c) \<and> attributesArmed (msgs c ! k)
      then ((c\<lparr>msgs := (msgs c)[k := (msgs c ! k)\<lparr>attributesArmed := False\<rparr>]\<rparr>,
             this\<lparr>processedEmails := insert (toString uid) (processedEmails this)\<rparr>),
            [ProcessedAdd k (toString uid)])
      else ((c, this), []))"

text \<open>\<^verbatim>\<open>fetch.once('error', ...)\<close> and \<^verbatim>\<open>fetch.once('end', ...)\<close>\<close>

definition on_fetch_error :: "err \<Rightarrow> cycle \<Rightarrow> cycle \<times> action list" where
  "on_fetch_error e c =
     (if fetchErrorArmed c
      then (reject e (c\<lparr>fetchErrorArmed := False\<rparr>), [Log (ErrFetch e), Reject e])
      else (c, []))"

definition on_fetch_end :: "cycle \<Rightarrow> cycle \<times> action list" where
  "on_fetch_end c =
     (if fetchEndArmed c
      then (resolve (c\<lparr>fetchEndArmed := False\<rparr>),
            [Log (LogFinished (emailCount c)), ImapEnd, Resolve])
      else (c, []))"

text \<open>One callback, run to completion, on the closure and the service.\<close>

definition lift :: "EmailService \<Rightarrow> cycle \<times> action list \<Rightarrow> (cycle \<times> EmailService) \<times> action list" where
  "lift this r = ((fst r, this), snd r)"

fun handle :: "cycle \<times> EmailService \<Rightarrow> imap_event \<Rightarrow> (cycle \<times> EmailService) \<times> action list" where
  "handle (c, this) Ready = lift this (on_ready c)"
| "handle (c, this) (ImapError e) = lift this (on_error e c)"
| "handle (c, this) ImapEnded = lift this (on_end c)"
| "handle (c, this) (OpenBoxCb er tot) = lift this (on_openBox er tot c)"
| "handle (c, this) (SearchCb er results) = lift this (on_search er results c this)"
| "handle (c, this) FetchMessage = lift this (on_message c)"
| "handle (c, this) (MsgBody k) = lift this (on_body k c)"
| "handle (c, this) (StreamData k chunk) = lift this (on_data k chunk c)"
| "handle (c, this) (StreamEnd k) = lift this (on_stream_end k c)"
| "handle (c, this) (ParserCb k er parsed) = lift this (on_parsed k er parsed c)"
| "handle (c, this) (ClassifyDone k r) = lift this (on_classified k r c)"
| "handle (c, this) (MsgAttributes k uid) = on_attributes k uid c this"
| "handle (c, this) (MsgEnd k) = ((c, this), [])"
| "handle (c, this) (FetchError e) = lift this (on_fetch_error e c)"
| "handle (c, this) FetchEnd = lift this (on_fetch_end c)"

text \<open>The callbacks of one cycle in the order they arrive, and everything they did.\<close>

fun run_cycle :: "cycle \<times> EmailService \<Rightarrow> imap_event list \<Rightarrow> (cycle \<times> EmailService) \<times> action list" where
  "run_cycle s [] = (s, [])"
| "run_cycle s (ev # evs) =
     (let (s1, acts) = handle s ev; (s2, rest) = run_cycle s1 evs in (s2, acts @ rest))"

text \<open>A cycle from the call on: the call's own actions, then those of the callbacks.\<close>

definition poll_cycle ::
  "string \<Rightarrow> bool \<Rightarrow> EmailService \<Rightarrow> imap_event list \<Rightarrow> (cycle \<times> EmailService) \<times> action list" where
  "poll_cycle subj manual this evs =
     (let (c, acts) = readEmailsBySubject subj manual;
          (s, rest) = run_cycle (c, this) evs
      in (s, acts @ rest))"

section \<open>The process: monitoring, the controller and the cycles in flight\<close>

text \<open>
  The service, the interval timers the runtime holds for it, and the closures of the
  calls of \<^verbatim>\<open>readEmailsBySubject\<close> made so far.  Nothing keeps a second cycle
  from starting while one is in flight, so the cycles are a list and a callback names
  the cycle it belongs to.
\<close>

record world =
  service :: EmailService
  timers :: "Timeout list"
  nextTimer :: nat
  cycles :: "cycle list"

definition init_world :: world where
  "init_world =
     \<lparr>service = \<lparr>intervalId = None, processedEmails = {}, isMonitoring = False\<rparr>,
      timers = [], nextTimer = 0, cycles = []\<rparr>"

text \<open>An action of the process is the service's own, or that of the cycle numbered.\<close>

datatype sys_action = Top action | In nat action

definition spawn :: "string \<Rightarrow> bool \<Rightarrow> world \<Rightarrow> world \<times> sys_action list" where
  "spawn subj manual w =
     (let (c, acts) = readEmailsBySubject subj manual
      in (w\<lparr>cycles := cycles w @ [c]\<rparr>, map (In (length (cycles w))) acts))"

text \<open>
  \<^verbatim>\<open>checkForNewEmails\<close> awaits a cycle with the default \<^verbatim>\<open>isManualCheck = false\<close>;
  the controller's \<^verbatim>\<open>readEmails\<close> awaits one with \<^verbatim>\<open>true\<close>.
\<close>

definition checkForNewEmails :: "world \<Rightarrow> world \<times> sys_action list" where
  "checkForNewEmails w = spawn subjectLine False w"

definition readEmails :: "world \<Rightarrow> world \<times> sys_action list" where
  "readEmails w = spawn ''read emails from this subject line'' True w"

text \<open>
  What the awaiting caller does when the promise settles: \<^verbatim>\<open>checkForNewEmails\<close>
  logs a rejection, \<^verbatim>\<open>readEmails\<close> answers the request.
\<close>

definition awaiting :: "cycle \<Rightarrow> outcome \<Rightarrow> action list" where
  "awaiting c out =
     (if isManualCheck c
      then (case out of
              Resolved \<Rightarrow>
                [Respond (''Successfully processed emails with subject: '' @ [CHR 0x22]
                          @ ''read emails from this subject line'' @ [CHR 0x22])]
            | Rejected e \<Rightarrow> [Respond (''Error reading emails: '' @ message e)])
      else (case out of
              Resolved \<Rightarrow> []
            | Rejected e \<Rightarrow> [Log (ErrDuringCheck (message e))]))"

definition startEmailMonitoring :: "world \<Rightarrow> world \<times> sys_action list" where
  "startEmailMonitoring w =
     (if isMonitoring (service w)
      then (w, [Top (Log WarnAlreadyRunning)])
      else (let w1 = w\<lparr>service := (service w)\<lparr>isMonitoring := True\<rparr>\<rparr>;
                (w2, acts) = checkForNewEmails w1;
                t = Timeout (nextTimer w2)
            in (w2\<lparr>service := (service w2)\<lparr>intervalId := Some t\<rparr>,
                    timers := t # timers w2,
                    nextTimer := nextTimer w2 + 1\<rparr>,
                [Top (Log (LogStartingMonitoring subjectLine)),
                 Top (Log (LogCheckingEvery (checkInterval div 1000)))]
                @ acts @ [Top (SetInterval t checkInterval)])))"

definition stopEmailMonitoring :: "world \<Rightarrow> world \<times> sys_action list" where
  "stopEmailMonitoring w =
     (if \<not> isMonitoring (service w)
      then (w, [])
      else (let w1 = w\<lparr>service := (service w)\<lparr>isMonitoring := False\<rparr>\<rparr> in
            case intervalId (service w1) of
              Some t \<Rightarrow>
                (w1\<lparr>service := (service w1)\<lparr>intervalId := None\<rparr>,
                    timers := removeAll t (timers w1)\<rparr>,
                 [Top (ClearInterval t), Top (Log LogMonitoringStopped)])
            | None \<Rightarrow> (w1, [Top (Log LogMonitoringStopped)])))"

text \<open>What can happen to the process: the module hooks, the requests, a timer, a callback.\<close>

datatype sys_event =
    ModuleInit
  | ModuleDestroy
  | PostReadEmails
  | PostStartMonitoring
  | PostStopMonitoring
  | GetMonitoringStatus
  | PostTestSound
  | IntervalFired Timeout
  | Imap nat imap_event

definition on_imap :: "nat \<Rightarrow> imap_event \<Rightarrow> world \<Rightarrow> world \<times> sys_action list" where
  "on_imap n ev w =
     (if n < length (cycles w)
      then (let c = cycles w ! n;
                ((c1, this1), acts) = handle (c, service w) ev
            in (w\<lparr>service := this1, cycles := (cycles w)[n := c1]\<rparr>,
                map (In n) acts
                @ (case (settled c, settled c1) of
                     (None, Some out) \<Rightarrow> map (In n) (awaiting c1 out)
                   | _ \<Rightarrow> [])))
      else (w, []))"

fun sys_step :: "world \<Rightarrow> sys_event \<Rightarrow> world \<times> sys_action list" where
  "sys_step w ModuleInit =
     (let (w1, acts) = startEmailMonitoring w in (w1, Top (Log LogInitStarting) # acts))"
| "sys_step w ModuleDestroy =
     (let (w1, acts) = stopEmailMonitoring w in (w1, Top (Log LogShuttingDown) # acts))"
| "sys_step w PostReadEmails = readEmails w"
| "sys_step w PostStartMonitoring =
     (let (w1, acts) = startEmailMonitoring w
      in (w1, acts @ [Top (Respond ''Email monitoring started'')]))"
| "sys_step w PostStopMonitoring =
     (let (w1, acts) = stopEmailMonitoring w
      in (w1, acts @ [Top (Respond ''Email monitoring stopped'')]))"
| "sys_step w GetMonitoringStatus =
     (w, [Top (RespondStatus ''Email monitoring status'' (isMonitoring (service w)))])"
| "sys_step w PostTestSound =
     (w, map Top testNotificationSound @ [Top (Respond ''Test notification sound triggered'')])"
| "sys_step w (IntervalFired t) =
     (if t \<in> set (timers w) then checkForNewEmails w else (w, []))"
| "sys_step w (Imap n ev) = on_imap n ev w"

fun sys_run :: "world \<Rightarrow> sys_event list \<Rightarrow> world \<times> sys_action list" where
  "sys_run w [] = (w, [])"
| "sys_run w (ev # evs) =
     (let (w1, acts) = sys_step w ev; (w2, rest) = sys_run w1 evs in (w2, acts @ rest))"

section \<open>Reading a trace\<close>

text \<open>
  \<open>before P Q tr\<close>: every action of \<open>tr\<close> that satisfies \<open>Q\<close> comes after one that
  satisfies \<open>P\<close>.
\<close>

fun before :: "('a \<Rightarrow> bool) \<Rightarrow> ('a \<Rightarrow> bool) \<Rightarrow> 'a list \<Rightarrow> bool" where
  "before P Q [] = True"
| "before P Q (x # xs) = (if P x then True else \<not> Q x \<and> before P Q xs)"

text \<open>The steps of the processing of message \<open>k\<close>, as actions.\<close>

fun is_parse :: "nat \<Rightarrow> action \<Rightarrow> bool" where
  "is_parse k (SimpleParser j b) = (j = k)"
| "is_parse k _ = False"

fun is_classify :: "nat \<Rightarrow> action \<Rightarrow> bool" where
  "is_classify k (ClassifyEmail j f s b) = (j = k)"
| "is_classify k _ = False"

fun is_render :: "nat \<Rightarrow> action \<Rightarrow> bool" where
  "is_render k (ClassificationBlock j ls) = (j = k)"
| "is_render k (ErrorBlock j ls) = (j = k)"
| "is_render k _ = False"

fun is_add :: "nat \<Rightarrow> action \<Rightarrow> bool" where
  "is_add k (ProcessedAdd j key) = (j = k)"
| "is_add k _ = False"

section \<open>Predicates and sample inputs for the proofs\<close>

text \<open>
  A cycle is quiet when no callback that could still reach \<^verbatim>\<open>imap.end()\<close> is
  registered or awaited.
\<close>

definition quiet :: "cycle \<Rightarrow> bool" where
  "quiet c \<longleftrightarrow> \<not> readyArmed c \<and> \<not> openBoxPending c \<and> \<not> searchPending c \<and> \<not> fetchEndArmed c"

text \<open>
  A callback of the parser or the classifier is awaited only after the call was made,
  and the trace so far has the calls in order.
\<close>

definition pending_ok :: "cycle \<Rightarrow> action list \<Rightarrow> bool" where
  "pending_ok c tr \<longleftrightarrow>
     (\<forall>k < length (msgs c).
        (parsing (msgs c ! k) > 0 \<longrightarrow> (\<exists>a \<in> set tr. is_parse k a)) \<and>
        (classifying (msgs c ! k) > 0 \<longrightarrow> (\<exists>a \<in> set tr. is_classify k a)))"

definition ordered :: "action list \<Rightarrow> bool" where
  "ordered tr \<longleftrightarrow>
     (\<forall>k. before (is_parse k) (is_classify k) tr \<and> before (is_classify k) (is_render k) tr)"

text \<open>The monitoring state: the flag, the handle the service keeps, the timers armed.\<close>

definition monitoring_of :: "world \<Rightarrow> bool \<times> Timeout option \<times> Timeout list" where
  "monitoring_of w = (isMonitoring (service w), intervalId (service w), timers w)"

definition consistent :: "world \<Rightarrow> bool" where
  "consistent w \<longleftrightarrow>
     (isMonitoring (service w) \<longleftrightarrow> intervalId (service w) \<noteq> None) \<and>
     timers w = (case intervalId (service w) of None \<Rightarrow> [] | Some t \<Rightarrow> [t])"

text \<open>The calls of \<^verbatim>\<open>processedEmails.add\<close> with a key, and the fetches of a message.\<close>

fun adds :: "string \<Rightarrow> sys_action \<Rightarrow> bool" where
  "adds key (In n (ProcessedAdd k key')) = (key' = key)"
| "adds key _ = False"

fun fetches :: "nat \<Rightarrow> sys_action \<Rightarrow> bool" where
  "fetches u (In n (ImapFetch us)) = (u \<in> set us)"
| "fetches u _ = False"

text \<open>Sample values.\<close>

definition mail0 :: ParsedMail where
  "mail0 = \<lparr>from_addr = Some \<lparr>text_of = Some ''a@example.com''\<rparr>, to_addr = None,
            subject = Some ''read emails from this subject line'', date = None,
            text_body = Some ''hello'', html_body = None\<rparr>"


definition verdict0 :: EmailClassification where
  "verdict0 = \<lparr>classification = HumanGenerated, confidence = 92,
               reasoning = ''a short personal note'',
               systemIndicators = [], humanIndicators = [''greeting'']\<rparr>"


definition service0 :: EmailService where
  "service0 = \<lparr>intervalId = None, processedEmails = {}, isMonitoring = False\<rparr>"

text \<open>A cycle that has seen the \<^verbatim>\<open>message\<close> event of one message and nothing of it yet.\<close>

definition cycle1 :: cycle where
  "cycle1 = (fst (readEmailsBySubject subjectLine False))
     \<lparr>msgs := [\<lparr>buffer = [], streams = 0, attributesArmed = True, parsing = 0, classifying = 0\<rparr>]\<rparr>"

text \<open>
  One new message, number 7: its attributes arrive when the body has been handed to the
  parser, before the parser and the classifier call back.
\<close>

definition attributes_first :: "imap_event list" where
  "attributes_first =
     [Ready, OpenBoxCb None 1, SearchCb None (Some [7]), FetchMessage, MsgBody 0,
      StreamData 0 ''Subject: x'', StreamEnd 0, MsgAttributes 0 7,
      ParserCb 0 None mail0, ClassifyDone 0 (Inr verdict0), FetchEnd]"

text \<open>
  The first check of the monitor and a manual check while it is in flight: both search
  before either has recorded message 7.
\<close>

definition overlapping :: "sys_event list" where
  "overlapping =
     [ModuleInit, PostReadEmails,
      Imap 0 Ready, Imap 0 (OpenBoxCb None 1), Imap 0 (SearchCb None (Some [7])),
      Imap 1 Ready, Imap 1 (OpenBoxCb None 1), Imap 1 (SearchCb None (Some [7])),
      Imap 0 FetchMessage, Imap 0 (MsgAttributes 0 7),
      Imap 1 FetchMessage, Imap 1 (MsgAttributes 0 7)]"

text \<open>A process that is monitoring, and one that has already recorded message 7.\<close>

definition world_on :: world where
  "world_on =
     \<lparr>service = \<lparr>intervalId = Some (Timeout 0), processedEmails = {}, isMonitoring = True\<rparr>,
      timers = [Timeout 0], nextTimer = 1, cycles = []\<rparr>"

definition world_seen7 :: world where
  "world_seen7 =
     \<lparr>service = \<lparr>intervalId = None, processedEmails = {''7''}, isMonitoring = False\<rparr>,
      timers = [], nextTimer = 0, cycles = []\<rparr>"

section \<open>Lemmas on the handlers\<close>

lemmas handler_defs =
  on_ready_def on_error_def on_end_def on_openBox_def on_search_def on_message_def
  on_body_def on_data_def on_stream_end_def on_parsed_def on_classified_def
  on_attributes_def on_fetch_error_def on_fetch_end_def lift_def resolve_def reject_def

lemma toString_7: "toString 7 = ''7''"
  by code_simp

lemma toString_8: "toString 8 = ''8''"
  by code_simp

section \<open>The classifier client\<close>

text \<open>
  C7.  \<^verbatim>\<open>testConnection\<close> never raises.  It returns false when the request
  throws, and whenever the backend answers but the answer has no choice, or its first
  choice has no message, or that message has a missing or an empty content.  It returns
  true exactly when the backend answers and the message of the first choice has a
  content that is not empty.
\<close>

theorem testConnection_false_without_content:
  "(\<exists>b. snd (testConnection reply) = Inr b) \<and>
   (\<forall>e. reply = Inl e \<longrightarrow> snd (testConnection reply) = Inr False) \<and>
   (\<forall>r. reply = Inr r \<and>
        (choices r = [] \<or>
         (\<exists>c cs. choices r = c # cs \<and>
            (message_of c = None \<or>
             (\<exists>m. message_of c = Some m \<and> (content m = None \<or> content m = Some [])))))
        \<longrightarrow> snd (testConnection reply) = Inr False) \<and>
   (snd (testConnection reply) = Inr True
        \<longleftrightarrow> (\<exists>r c cs m s. reply = Inr r \<and> choices r = c # cs \<and> message_of c = Some m \<and>
                           content m = Some s \<and> s \<noteq> []))"
proof (cases reply)
  case (Inl e)
  then show ?thesis by (auto simp: testConnection_def testConnection_try_def)
next
  case (Inr r)
  show ?thesis
  proof (cases "choices r")
    case Nil
    with Inr show ?thesis
      by (auto simp: testConnection_def testConnection_try_def first_content_def Let_def)
  next
    case (Cons c cs)
    show ?thesis
    proof (cases "message_of c")
      case None
      with Inr Cons show ?thesis
        by (auto simp: testConnection_def testConnection_try_def first_content_def Let_def)
    next
      case (Some m)
      with Inr Cons show ?thesis
        by (cases "content m")
           (auto simp: testConnection_def testConnection_try_def first_content_def Let_def)
    qed
  qed
qed

text \<open>
  A backend that answers \<^verbatim>\<open>Hello\<close> gives true; one that answers with an empty or
  a missing content, or with no choice at all, gives false, and so does a request that
  throws.
\<close>

theorem testConnection_false_without_content_witness:
  "snd (testConnection (Inr \<lparr>choices = [\<lparr>message_of = Some \<lparr>content = Some ''Hello''\<rparr>\<rparr>]\<rparr>)) = Inr True \<and>
   snd (testConnection (Inr \<lparr>choices = [\<lparr>message_of = Some \<lparr>content = Some []\<rparr>\<rparr>]\<rparr>)) = Inr False \<and>
   snd (testConnection (Inr \<lparr>choices = [\<lparr>message_of = Some \<lparr>content = None\<rparr>\<rparr>]\<rparr>)) = Inr False \<and>
   snd (testConnection (Inr \<lparr>choices = []\<rparr>)) = Inr False \<and>
   snd (testConnection (Inl (Error ''connect ECONNREFUSED''))) = Inr False"
  using testConnection_false_without_content
          [of "Inr \<lparr>choices = [\<lparr>message_of = Some \<lparr>content = Some ''Hello''\<rparr>\<rparr>]\<rparr>"]
        testConnection_false_without_content
          [of "Inr \<lparr>choices = [\<lparr>message_of = Some \<lparr>content = Some []\<rparr>\<rparr>]\<rparr>"]
        testConnection_false_without_content
          [of "Inr \<lparr>choices = [\<lparr>message_of = Some \<lparr>content = None\<rparr>\<rparr>]\<rparr>"]
        testConnection_false_without_content [of "Inr \<lparr>choices = []\<rparr>"]
        testConnection_false_without_content [of "Inl (Error ''connect ECONNREFUSED'')"]
  by simp

text \<open>
  C8, as the code has it.  Initialisation throws exactly when \<^verbatim>\<open>OPENAI_API_KEY\<close> is
  absent or is the empty string; with a non-empty key it completes and holds a client
  built from that key.
\<close>

theorem onModuleInit_key:
  "(snd (onModuleInit env this) = Inl (Error ''OPENAI_API_KEY is required'')
      \<longleftrightarrow> env ''OPENAI_API_KEY'' = None \<or> env ''OPENAI_API_KEY'' = Some []) \<and>
   (\<forall>k. env ''OPENAI_API_KEY'' = Some k \<and> k \<noteq> []
      \<longrightarrow> snd (onModuleInit env this) = Inr (this\<lparr>openai := Some \<lparr>apiKey = k\<rparr>\<rparr>))"
  by (cases "env ''OPENAI_API_KEY''") (auto simp: onModuleInit_def Let_def)

theorem onModuleInit_key_witness:
  "snd (onModuleInit [''OPENAI_API_KEY'' \<mapsto> ''sk-test''] \<lparr>openai = None\<rparr>)
     = Inr \<lparr>openai = Some \<lparr>apiKey = ''sk-test''\<rparr>\<rparr> \<and>
   snd (onModuleInit Map.empty \<lparr>openai = None\<rparr>) = Inl (Error ''OPENAI_API_KEY is required'')"
  using onModuleInit_key [of "[''OPENAI_API_KEY'' \<mapsto> ''sk-test'']" "\<lparr>openai = None\<rparr>"]
        onModuleInit_key [of Map.empty "\<lparr>openai = None\<rparr>"]
  by simp

text \<open>
  C8 as stated fails: the variable can be present and initialisation still throw, when
  its value is the empty string.
\<close>

theorem empty_key_refused:
  "[''OPENAI_API_KEY'' \<mapsto> []] ''OPENAI_API_KEY'' \<noteq> None \<and>
   snd (onModuleInit [''OPENAI_API_KEY'' \<mapsto> []] \<lparr>openai = None\<rparr>)
     = Inl (Error ''OPENAI_API_KEY is required'')"
  by (simp add: onModuleInit_def)

section \<open>The report\<close>






section \<open>Exits of a cycle\<close>

lemma run_cycle_append:
  "run_cycle s (xs @ ys) =
     (let (s1, a1) = run_cycle s xs; (s2, a2) = run_cycle s1 ys in (s2, a1 @ a2))"
  by (induction xs arbitrary: s) (auto simp: Let_def split: prod.splits)

lemma handle_quiet:
  assumes "quiet c"
  shows "quiet (fst (fst (handle (c, this) ev))) \<and> ImapEnd \<notin> set (snd (handle (c, this) ev))"
  using assms
  by (cases ev) (auto simp: quiet_def handler_defs Let_def split: option.splits sum.splits)

lemma run_quiet:
  "quiet (fst s) \<Longrightarrow>
     quiet (fst (fst (run_cycle s evs))) \<and> ImapEnd \<notin> set (snd (run_cycle s evs))"
proof (induction evs arbitrary: s)
  case Nil
  then show ?case by simp
next
  case (Cons ev evs)
  obtain c this where s: "s = (c, this)" by (cases s)
  obtain s1 acts where h: "handle (c, this) ev = (s1, acts)" by (cases "handle (c, this) ev")
  from Cons.prems s have "quiet c" by simp
  from handle_quiet [OF this, of this ev] h
  have q1: "quiet (fst s1)" and a1: "ImapEnd \<notin> set acts" by simp_all
  from Cons.IH [OF q1] show ?case
    using s h a1 by (auto simp: Let_def split: prod.splits)
qed

lemma handle_settled:
  "settled c = Some out \<Longrightarrow> settled (fst (fst (handle (c, this) ev))) = Some out"
  by (cases ev) (auto simp: handler_defs Let_def split: option.splits sum.splits)

lemma run_settled:
  "settled (fst s) = Some out \<Longrightarrow> settled (fst (fst (run_cycle s evs))) = Some out"
proof (induction evs arbitrary: s)
  case Nil
  then show ?case by simp
next
  case (Cons ev evs)
  obtain c this where s: "s = (c, this)" by (cases s)
  obtain s1 acts where h: "handle (c, this) ev = (s1, acts)" by (cases "handle (c, this) ev")
  from Cons.prems s handle_settled [of c out this ev] h
  have "settled (fst s1) = Some out" by simp
  from Cons.IH [OF this] show ?case
    using s h by (auto simp: Let_def split: prod.splits)
qed

lemma openBox_prefix:
  "run_cycle (fst (readEmailsBySubject subj manual), this) [Ready, OpenBoxCb (Some e) tot] = (s, acts)
   \<Longrightarrow> quiet (fst s) \<and> settled (fst s) = Some (Rejected e) \<and> ImapEnd \<notin> set acts"
  by (auto simp: readEmailsBySubject_def handler_defs quiet_def Let_def)

lemma search_prefix:
  "run_cycle (fst (readEmailsBySubject subj manual), this)
      [Ready, OpenBoxCb None tot, SearchCb (Some e) rs] = (s, acts)
   \<Longrightarrow> quiet (fst s) \<and> settled (fst s) = Some (Rejected e) \<and> ImapEnd \<notin> set acts"
  by (auto simp: readEmailsBySubject_def handler_defs quiet_def Let_def)

lemma poll_cycle_run:
  "poll_cycle subj manual this evs =
     (fst (run_cycle (fst (readEmailsBySubject subj manual), this) evs),
      ImapConnect # snd (run_cycle (fst (readEmailsBySubject subj manual), this) evs))"
  by (simp add: poll_cycle_def readEmailsBySubject_def split: prod.splits)

lemma dead_after:
  assumes "run_cycle (fst (readEmailsBySubject subj manual), this) pre = (s, acts)"
     and "quiet (fst s) \<and> settled (fst s) = Some out \<and> ImapEnd \<notin> set acts"
  shows "ImapEnd \<notin> set (snd (poll_cycle subj manual this (pre @ rest))) \<and>
         settled (fst (fst (poll_cycle subj manual this (pre @ rest)))) = Some out"
proof -
  from assms(2) have q: "quiet (fst s)" and st: "settled (fst s) = Some out"
    and na: "ImapEnd \<notin> set acts" by simp_all
  have "run_cycle (fst (readEmailsBySubject subj manual), this) (pre @ rest) =
          (fst (run_cycle s rest), acts @ snd (run_cycle s rest))"
    using assms(1) by (simp add: run_cycle_append split: prod.splits)
  then show ?thesis
    using run_quiet [OF q, of rest] run_settled [OF st, of rest] na
    by (simp add: poll_cycle_run)
qed

text \<open>
  C1 says that \<^verbatim>\<open>imap.end()\<close> is attempted on every exit path of a cycle.  The code
  calls it on the three exits that resolve the promise, and on none that rejects it.
  When the callback of \<^verbatim>\<open>openBox\<close> or of \<^verbatim>\<open>search\<close> receives an error, the
  promise is rejected and no callback of the cycle, whatever arrives afterwards, calls
  \<^verbatim>\<open>imap.end()\<close>.  When the fetch emits \<^verbatim>\<open>error\<close>, its handler rejects the
  promise without the call: up to that exit the session has not been closed, and only an
  \<^verbatim>\<open>end\<close> event of the fetch arriving later would close it.
\<close>

theorem error_paths_skip_imap_end:
  "ImapEnd \<notin> set (snd (poll_cycle subj manual this ([Ready, OpenBoxCb (Some e) tot] @ rest))) \<and>
   settled (fst (fst (poll_cycle subj manual this ([Ready, OpenBoxCb (Some e) tot] @ rest))))
     = Some (Rejected e) \<and>
   ImapEnd \<notin> set (snd (poll_cycle subj manual this
       ([Ready, OpenBoxCb None tot, SearchCb (Some e) rs] @ rest))) \<and>
   settled (fst (fst (poll_cycle subj manual this
       ([Ready, OpenBoxCb None tot, SearchCb (Some e) rs] @ rest)))) = Some (Rejected e) \<and>
   ImapEnd \<notin> set (snd (poll_cycle subj manual (this\<lparr>processedEmails := {}\<rparr>)
       [Ready, OpenBoxCb None tot, SearchCb None (Some (u # us)), FetchError e])) \<and>
   settled (fst (fst (poll_cycle subj manual (this\<lparr>processedEmails := {}\<rparr>)
       [Ready, OpenBoxCb None tot, SearchCb None (Some (u # us)), FetchError e])))
     = Some (Rejected e)"
proof -
  obtain s1 a1 where p1:
    "run_cycle (fst (readEmailsBySubject subj manual), this) [Ready, OpenBoxCb (Some e) tot] = (s1, a1)"
    by (cases "run_cycle (fst (readEmailsBySubject subj manual), this) [Ready, OpenBoxCb (Some e) tot]")
  obtain s2 a2 where p2:
    "run_cycle (fst (readEmailsBySubject subj manual), this)
       [Ready, OpenBoxCb None tot, SearchCb (Some e) rs] = (s2, a2)"
    by (cases "run_cycle (fst (readEmailsBySubject subj manual), this)
       [Ready, OpenBoxCb None tot, SearchCb (Some e) rs]")
  have f: "ImapEnd \<notin> set (snd (poll_cycle subj manual (this\<lparr>processedEmails := {}\<rparr>)
       [Ready, OpenBoxCb None tot, SearchCb None (Some (u # us)), FetchError e])) \<and>
     settled (fst (fst (poll_cycle subj manual (this\<lparr>processedEmails := {}\<rparr>)
       [Ready, OpenBoxCb None tot, SearchCb None (Some (u # us)), FetchError e])))
       = Some (Rejected e)"
    by (simp add: poll_cycle_def readEmailsBySubject_def handler_defs Let_def
          playNotificationSound_def)
  show ?thesis
    using dead_after [OF p1 openBox_prefix [OF p1], of rest]
          dead_after [OF p2 search_prefix [OF p2], of rest] f
    by blast
qed

text \<open>
  C2 says that a search with no result fires the notifier once when the check is manual.
  The code returns at the empty result before it looks at the flag: a manual cycle whose
  search finds nothing (an empty or a missing result) plays no sound and resolves.  The
  test sound is played on the next exit only, where the search found messages and all of
  them were processed before.
\<close>

theorem empty_search_never_beeps:
  "Beeps \<notin> set (snd (poll_cycle subj True this [Ready, OpenBoxCb None tot, SearchCb None (Some [])])) \<and>
   Beeps \<notin> set (snd (poll_cycle subj True this [Ready, OpenBoxCb None tot, SearchCb None None])) \<and>
   settled (fst (fst (poll_cycle subj True this [Ready, OpenBoxCb None tot, SearchCb None (Some [])])))
     = Some Resolved \<and>
   Beeps \<notin> set (snd (poll_cycle subj False this [Ready, OpenBoxCb None tot, SearchCb None (Some [])])) \<and>
   count_list (snd (poll_cycle subj True (this\<lparr>processedEmails := {toString u}\<rparr>)
                       [Ready, OpenBoxCb None tot, SearchCb None (Some [u])])) Beeps = 1"
  by (simp add: poll_cycle_def readEmailsBySubject_def handler_defs Let_def playNotificationSound_def)

section \<open>The order of the steps of a message\<close>

lemma before_append:
  "before P Q (xs @ ys) =
     (if \<exists>x \<in> set xs. P x then before P Q xs else before P Q xs \<and> before P Q ys)"
  by (induction xs) auto

lemma before_none: "\<forall>x \<in> set ys. \<not> Q x \<Longrightarrow> before P Q ys"
  by (induction ys) auto

lemma ordered_append_plain:
  assumes "ordered tr"
    and "\<forall>a \<in> set acts. \<forall>k. \<not> is_classify k a \<and> \<not> is_render k a"
  shows "ordered (tr @ acts)"
  using assms by (auto simp: ordered_def before_append before_none)

lemma pending_ok_update:
  assumes "pending_ok c tr" and "k < length (msgs c)"
    and "parsing m > 0 \<longrightarrow> (\<exists>a \<in> set (tr @ acts). is_parse k a)"
    and "classifying m > 0 \<longrightarrow> (\<exists>a \<in> set (tr @ acts). is_classify k a)"
  shows "pending_ok (c\<lparr>msgs := (msgs c)[k := m]\<rparr>) (tr @ acts)"
  unfolding pending_ok_def
proof (intro allI impI)
  fix j
  assume j: "j < length (msgs (c\<lparr>msgs := (msgs c)[k := m]\<rparr>))"
  show "(0 < parsing (msgs (c\<lparr>msgs := (msgs c)[k := m]\<rparr>) ! j) \<longrightarrow>
           (\<exists>a\<in>set (tr @ acts). is_parse j a)) \<and>
        (0 < classifying (msgs (c\<lparr>msgs := (msgs c)[k := m]\<rparr>) ! j) \<longrightarrow>
           (\<exists>a\<in>set (tr @ acts). is_classify j a))"
  proof (cases "j = k")
    case True
    with assms(2-4) show ?thesis by simp
  next
    case False
    with j assms(1) show ?thesis by (auto simp: pending_ok_def)
  qed
qed

lemma pending_ok_same:
  "pending_ok c tr \<Longrightarrow> msgs c1 = msgs c \<Longrightarrow> pending_ok c1 (tr @ acts)"
  by (auto simp: pending_ok_def)

lemma handle_inv:
  assumes "pending_ok c tr" and "ordered tr"
  shows "pending_ok (fst (fst (handle (c, this) ev))) (tr @ snd (handle (c, this) ev)) \<and>
         ordered (tr @ snd (handle (c, this) ev))"
proof (cases ev)
  case (ParserCb k er parsed)
  show ?thesis
  proof (cases "k < length (msgs c) \<and> parsing (msgs c ! k) > 0")
    case False
    with assms ParserCb show ?thesis by (auto simp: handler_defs)
  next
    case True
    with assms(1) obtain a where a: "a \<in> set tr" "is_parse k a"
      by (auto simp: pending_ok_def)
    from True assms(1) have cl: "classifying (msgs c ! k) > 0 \<longrightarrow> (\<exists>a \<in> set tr. is_classify k a)"
      by (auto simp: pending_ok_def)
    show ?thesis
    proof (cases er)
      case (Some e)
      have o: "ordered (tr @ [Log (ErrParsing e)])"
        using assms(2) by (intro ordered_append_plain) auto
      have p: "pending_ok (c\<lparr>msgs := (msgs c)[k := (msgs c ! k)\<lparr>parsing := parsing (msgs c ! k) - 1\<rparr>]\<rparr>)
                (tr @ [Log (ErrParsing e)])"
        using True a cl by (intro pending_ok_update [OF assms(1)]) auto
      from Some True ParserCb o p show ?thesis
        by (simp add: handler_defs Let_def)
    next
      case None
      have o: "ordered (tr @ [Report k (render_report (emailCount c) parsed),
                  ClassifyEmail k (from_of parsed) (subject_of parsed) (body_of parsed)])"
        using assms(2) a by (auto simp: ordered_def before_append)
      have p: "pending_ok (c\<lparr>msgs := (msgs c)[k := (msgs c ! k)\<lparr>parsing := parsing (msgs c ! k) - 1,
                   classifying := classifying (msgs c ! k) + 1\<rparr>]\<rparr>)
                (tr @ [Report k (render_report (emailCount c) parsed),
                  ClassifyEmail k (from_of parsed) (subject_of parsed) (body_of parsed)])"
        using True a by (intro pending_ok_update [OF assms(1)]) auto
      from None True ParserCb o p show ?thesis
        by (simp add: handler_defs Let_def)
    qed
  qed
next
  case (ClassifyDone k r)
  show ?thesis
  proof (cases "k < length (msgs c) \<and> classifying (msgs c ! k) > 0")
    case False
    with assms ClassifyDone show ?thesis by (auto simp: handler_defs)
  next
    case True
    with assms(1) obtain a where a: "a \<in> set tr" "is_classify k a"
      by (auto simp: pending_ok_def)
    from True assms(1) have pa: "parsing (msgs c ! k) > 0 \<longrightarrow> (\<exists>a \<in> set tr. is_parse k a)"
      by (auto simp: pending_ok_def)
    have o: "ordered (tr @ snd (on_classified k r c))"
      using assms(2) a True
      by (cases r) (auto simp: ordered_def before_append on_classified_def)
    have "pending_ok (c\<lparr>msgs := (msgs c)[k := (msgs c ! k)\<lparr>classifying := classifying (msgs c ! k) - 1\<rparr>]\<rparr>)
                (tr @ snd (on_classified k r c))"
      using True a pa by (intro pending_ok_update [OF assms(1)]) auto
    with True have p: "pending_ok (fst (on_classified k r c)) (tr @ snd (on_classified k r c))"
      by (simp add: on_classified_def)
    from ClassifyDone o p show ?thesis by (simp add: lift_def)
  qed
next
  case (StreamEnd k)
  show ?thesis
  proof (cases "k < length (msgs c) \<and> streams (msgs c ! k) > 0")
    case False
    with assms StreamEnd show ?thesis by (auto simp: handler_defs)
  next
    case True
    have o: "ordered (tr @ [SimpleParser k (buffer (msgs c ! k))])"
      using assms(2) by (intro ordered_append_plain) auto
    from True assms(1) have cl: "classifying (msgs c ! k) > 0 \<longrightarrow> (\<exists>a \<in> set tr. is_classify k a)"
      by (auto simp: pending_ok_def)
    have p: "pending_ok (c\<lparr>msgs := (msgs c)[k := (msgs c ! k)\<lparr>streams := streams (msgs c ! k) - 1,
                                                   parsing := parsing (msgs c ! k) + 1\<rparr>]\<rparr>)
               (tr @ [SimpleParser k (buffer (msgs c ! k))])"
      using True cl by (intro pending_ok_update [OF assms(1)]) auto
    from StreamEnd True o p show ?thesis by (simp add: lift_def on_stream_end_def)
  qed
next
  case (MsgBody k)
  show ?thesis
  proof (cases "k < length (msgs c)")
    case False
    with assms MsgBody show ?thesis by (auto simp: handler_defs)
  next
    case True
    with assms(1) have "pending_ok (c\<lparr>msgs := (msgs c)[k := (msgs c ! k)\<lparr>streams := streams (msgs c ! k) + 1\<rparr>]\<rparr>) (tr @ [])"
      by (intro pending_ok_update [OF assms(1)]) (auto simp: pending_ok_def)
    with MsgBody True assms(2) show ?thesis by (simp add: lift_def on_body_def)
  qed
next
  case (StreamData k chunk)
  show ?thesis
  proof (cases "k < length (msgs c) \<and> streams (msgs c ! k) > 0")
    case False
    with assms StreamData show ?thesis by (auto simp: handler_defs)
  next
    case True
    with assms(1) have "pending_ok (c\<lparr>msgs := (msgs c)[k := (msgs c ! k)\<lparr>buffer := buffer (msgs c ! k) @ chunk\<rparr>]\<rparr>) (tr @ [])"
      by (intro pending_ok_update [OF assms(1)]) (auto simp: pending_ok_def)
    with StreamData True assms(2) show ?thesis by (simp add: lift_def on_data_def)
  qed
next
  case (MsgAttributes k uid)
  show ?thesis
  proof (cases "k < length (msgs c) \<and> attributesArmed (msgs c ! k)")
    case False
    with assms MsgAttributes show ?thesis by (auto simp: handler_defs)
  next
    case True
    have o: "ordered (tr @ [ProcessedAdd k (toString uid)])"
      using assms(2) by (intro ordered_append_plain) auto
    from True assms(1) have "pending_ok (c\<lparr>msgs := (msgs c)[k := (msgs c ! k)\<lparr>attributesArmed := False\<rparr>]\<rparr>)
        (tr @ [ProcessedAdd k (toString uid)])"
      by (intro pending_ok_update [OF assms(1)]) (auto simp: pending_ok_def)
    with MsgAttributes True o show ?thesis by (simp add: on_attributes_def)
  qed
next
  case FetchMessage
  show ?thesis
  proof (cases "fetching c")
    case False
    with assms FetchMessage show ?thesis by (auto simp: handler_defs)
  next
    case True
    have o: "ordered (tr @ [Log (LogProcessing (emailCount c + 1) (length (newEmails c)))])"
      using assms(2) by (intro ordered_append_plain) auto
    have p: "pending_ok (fst (on_message c)) (tr @ [Log (LogProcessing (emailCount c + 1) (length (newEmails c)))])"
      using assms(1) True by (auto simp: pending_ok_def on_message_def nth_append)
    from FetchMessage True o p show ?thesis by (simp add: lift_def on_message_def)
  qed
next
  case (SearchCb er results)
  have o: "ordered (tr @ snd (on_search er results c this))"
    using assms(2)
    by (intro ordered_append_plain)
       (auto simp: on_search_def Let_def playNotificationSound_def resolve_def reject_def
             split: option.splits if_splits)
  have p: "msgs (fst (on_search er results c this)) = msgs c"
    by (auto simp: on_search_def Let_def resolve_def reject_def split: option.splits)
  from SearchCb o pending_ok_same [OF assms(1) p] show ?thesis
    by (simp add: lift_def)
next
  case Ready
  have o: "ordered (tr @ snd (on_ready c))"
    using assms(2) by (intro ordered_append_plain) (auto simp: on_ready_def)
  have p: "msgs (fst (on_ready c)) = msgs c" by (simp add: on_ready_def)
  from Ready o pending_ok_same [OF assms(1) p] show ?thesis by (simp add: lift_def)
next
  case (ImapError e)
  have o: "ordered (tr @ snd (on_error e c))"
    using assms(2) by (intro ordered_append_plain) (auto simp: on_error_def)
  have p: "msgs (fst (on_error e c)) = msgs c"
    by (simp add: on_error_def reject_def split: option.splits)
  from ImapError o pending_ok_same [OF assms(1) p] show ?thesis by (simp add: lift_def)
next
  case ImapEnded
  have o: "ordered (tr @ snd (on_end c))"
    using assms(2) by (intro ordered_append_plain) (auto simp: on_end_def)
  have p: "msgs (fst (on_end c)) = msgs c" by (simp add: on_end_def)
  from ImapEnded o pending_ok_same [OF assms(1) p] show ?thesis by (simp add: lift_def)
next
  case (OpenBoxCb er tot)
  have o: "ordered (tr @ snd (on_openBox er tot c))"
    using assms(2)
    by (intro ordered_append_plain) (auto simp: on_openBox_def Let_def split: option.splits)
  have p: "msgs (fst (on_openBox er tot c)) = msgs c"
    by (simp add: on_openBox_def Let_def reject_def split: option.splits)
  from OpenBoxCb o pending_ok_same [OF assms(1) p] show ?thesis by (simp add: lift_def)
next
  case (MsgEnd k)
  with assms show ?thesis by simp
next
  case (FetchError e)
  have o: "ordered (tr @ snd (on_fetch_error e c))"
    using assms(2) by (intro ordered_append_plain) (auto simp: on_fetch_error_def)
  have p: "msgs (fst (on_fetch_error e c)) = msgs c"
    by (simp add: on_fetch_error_def reject_def split: option.splits)
  from FetchError o pending_ok_same [OF assms(1) p] show ?thesis by (simp add: lift_def)
next
  case FetchEnd
  have o: "ordered (tr @ snd (on_fetch_end c))"
    using assms(2) by (intro ordered_append_plain) (auto simp: on_fetch_end_def)
  have p: "msgs (fst (on_fetch_end c)) = msgs c"
    by (simp add: on_fetch_end_def resolve_def split: option.splits)
  from FetchEnd o pending_ok_same [OF assms(1) p] show ?thesis by (simp add: lift_def)
qed

lemma run_inv:
  "pending_ok (fst s) tr \<Longrightarrow> ordered tr \<Longrightarrow>
     pending_ok (fst (fst (run_cycle s evs))) (tr @ snd (run_cycle s evs)) \<and>
     ordered (tr @ snd (run_cycle s evs))"
proof (induction evs arbitrary: s tr)
  case Nil
  then show ?case by simp
next
  case (Cons ev evs)
  obtain c this where s: "s = (c, this)" by (cases s)
  obtain s1 acts where h: "handle (c, this) ev = (s1, acts)" by (cases "handle (c, this) ev")
  from Cons.prems s have "pending_ok c tr" "ordered tr" by simp_all
  from handle_inv [OF this, of this ev] h
  have "pending_ok (fst s1) (tr @ acts)" "ordered (tr @ acts)" by simp_all
  from Cons.IH [OF this] show ?case
    using s h by (auto simp: Let_def split: prod.splits)
qed

lemma poll_cycle_ordered: "ordered (snd (poll_cycle subj manual this evs))"
proof -
  have "pending_ok (fst (fst (readEmailsBySubject subj manual), this)) [ImapConnect]"
    by (simp add: pending_ok_def readEmailsBySubject_def)
  moreover have "ordered [ImapConnect]" by (simp add: ordered_def)
  ultimately show ?thesis
    using run_inv [of "(fst (readEmailsBySubject subj manual), this)" "[ImapConnect]" evs]
    by (simp add: poll_cycle_run)
qed

text \<open>
  C3, as the code has it.  In every cycle and for every fetched message, each call of
  the classifier comes after a call of the parser for that message, and each
  classification block or error block comes after a call of the classifier for it.  The
  identifier is added to the processed set by the message's \<^verbatim>\<open>attributes\<close> handler,
  whenever that handler is still registered, whatever the parser and the classifier have
  done by then.
\<close>

theorem parse_classify_render_order:
  "before (is_parse k) (is_classify k) (snd (poll_cycle subj manual this evs)) \<and>
   before (is_classify k) (is_render k) (snd (poll_cycle subj manual this evs)) \<and>
   (j < length (msgs c) \<and> attributesArmed (msgs c ! j) \<longrightarrow>
      snd (handle (c, svc) (MsgAttributes j uid)) = [ProcessedAdd j (toString uid)] \<and>
      processedEmails (snd (fst (handle (c, svc) (MsgAttributes j uid))))
        = insert (toString uid) (processedEmails svc))"
  using poll_cycle_ordered [of subj manual this evs]
  by (auto simp: ordered_def on_attributes_def)

theorem parse_classify_render_order_witness:
  "before (is_parse 0) (is_classify 0) (snd (poll_cycle subjectLine False service0 attributes_first)) \<and>
   before (is_classify 0) (is_render 0) (snd (poll_cycle subjectLine False service0 attributes_first)) \<and>
   snd (handle (cycle1, service0) (MsgAttributes 0 7)) = [ProcessedAdd 0 ''7''] \<and>
   processedEmails (snd (fst (handle (cycle1, service0) (MsgAttributes 0 7)))) = {''7''}"
  using parse_classify_render_order [of 0 subjectLine False service0 attributes_first 0 cycle1 service0 7]
  by (simp add: cycle1_def service0_def toString_7)

text \<open>
  C3 as stated fails on its last step: in this cycle the identifier of the message is
  added to the processed set before the classifier is called and before the
  classification block is printed.
\<close>

theorem ledger_add_precedes_render:
  "before (is_parse 0) (is_classify 0) (snd (poll_cycle subjectLine False service0 attributes_first)) \<and>
   before (is_classify 0) (is_render 0) (snd (poll_cycle subjectLine False service0 attributes_first)) \<and>
   \<not> before (is_render 0) (is_add 0) (snd (poll_cycle subjectLine False service0 attributes_first)) \<and>
   \<not> before (is_classify 0) (is_add 0) (snd (poll_cycle subjectLine False service0 attributes_first))"
  by code_simp

section \<open>The monitoring state\<close>

lemma handle_service:
  "isMonitoring (snd (fst (handle (c, this) ev))) = isMonitoring this \<and>
   intervalId (snd (fst (handle (c, this) ev))) = intervalId this \<and>
   processedEmails this \<subseteq> processedEmails (snd (fst (handle (c, this) ev)))"
  by (cases ev) (auto simp: lift_def on_attributes_def)

lemma on_imap_monitoring: "monitoring_of (fst (on_imap n ev w)) = monitoring_of w"
proof (cases "n < length (cycles w)")
  case True
  obtain c1 this1 acts where h: "handle (cycles w ! n, service w) ev = ((c1, this1), acts)"
    by (metis prod.exhaust)
  with handle_service [of "cycles w ! n" "service w" ev] True show ?thesis
    by (simp add: on_imap_def monitoring_of_def)
next
  case False
  then show ?thesis by (simp add: on_imap_def)
qed

lemma spawn_monitoring: "monitoring_of (fst (spawn subj manual w)) = monitoring_of w"
  by (simp add: spawn_def monitoring_of_def readEmailsBySubject_def)

lemma run_imap_monitoring:
  "monitoring_of (fst (sys_run w (map (Imap n) evs))) = monitoring_of w"
proof (induction evs arbitrary: w)
  case Nil
  then show ?case by simp
next
  case (Cons ev evs)
  obtain w1 acts where s: "on_imap n ev w = (w1, acts)" by (cases "on_imap n ev w")
  with on_imap_monitoring [of n ev w] have "monitoring_of w1 = monitoring_of w" by simp
  with Cons.IH [of w1] s show ?case by (auto split: prod.splits)
qed

text \<open>
  C9.  A manual request starts a cycle with the manual flag set, and after the request
  and any callbacks of that cycle, whether they resolve or reject it, the service's
  \<^verbatim>\<open>isMonitoring\<close> and \<^verbatim>\<open>intervalId\<close> and the timers armed are what they were.
\<close>

theorem manual_invocation_frame:
  "isManualCheck (cycles (fst (sys_step w PostReadEmails)) ! length (cycles w)) \<and>
   isMonitoring (service (fst (sys_run w (PostReadEmails # map (Imap (length (cycles w))) evs))))
     = isMonitoring (service w) \<and>
   intervalId (service (fst (sys_run w (PostReadEmails # map (Imap (length (cycles w))) evs))))
     = intervalId (service w) \<and>
   timers (fst (sys_run w (PostReadEmails # map (Imap (length (cycles w))) evs))) = timers w"
proof -
  obtain w1 acts where s: "readEmails w = (w1, acts)" by (cases "readEmails w")
  then have m: "monitoring_of w1 = monitoring_of w"
    using spawn_monitoring [of "''read emails from this subject line''" True w]
    by (simp add: readEmails_def)
  have "isManualCheck (cycles w1 ! length (cycles w))"
    using s by (auto simp: readEmails_def spawn_def readEmailsBySubject_def)
  with m s run_imap_monitoring [of w1 "length (cycles w)" evs] show ?thesis
    by (auto simp: monitoring_of_def split: prod.splits)
qed

text \<open>A manual check that fails while the monitor is running: the monitor stays armed.\<close>

theorem manual_invocation_frame_witness:
  "isMonitoring (service (fst (sys_run world_on
      (PostReadEmails # map (Imap 0) [Ready, OpenBoxCb (Some (Error ''no inbox'')) 0])))) \<and>
   intervalId (service (fst (sys_run world_on
      (PostReadEmails # map (Imap 0) [Ready, OpenBoxCb (Some (Error ''no inbox'')) 0]))))
     = Some (Timeout 0) \<and>
   timers (fst (sys_run world_on
      (PostReadEmails # map (Imap 0) [Ready, OpenBoxCb (Some (Error ''no inbox'')) 0])))
     = [Timeout 0]"
  using manual_invocation_frame [of world_on "[Ready, OpenBoxCb (Some (Error ''no inbox'')) 0]"]
  by (simp add: world_on_def)

lemma start_consistent: "consistent w \<Longrightarrow> consistent (fst (startEmailMonitoring w))"
  by (auto simp: consistent_def startEmailMonitoring_def checkForNewEmails_def spawn_def
        readEmailsBySubject_def Let_def)

lemma stop_consistent: "consistent w \<Longrightarrow> consistent (fst (stopEmailMonitoring w))"
  by (auto simp: consistent_def stopEmailMonitoring_def Let_def split: option.splits)

lemma monitoring_consistent:
  "monitoring_of w1 = monitoring_of w \<Longrightarrow> consistent w \<Longrightarrow> consistent w1"
  by (simp add: monitoring_of_def consistent_def)

lemma step_consistent: "consistent w \<Longrightarrow> consistent (fst (sys_step w ev))"
proof (cases ev)
  case (Imap n e)
  assume "consistent w"
  with Imap on_imap_monitoring [of n e w] show ?thesis
    by (auto intro: monitoring_consistent)
next
  case (IntervalFired t)
  assume "consistent w"
  with IntervalFired spawn_monitoring [of subjectLine False w] show ?thesis
    by (auto simp: checkForNewEmails_def intro: monitoring_consistent)
next
  case PostReadEmails
  assume "consistent w"
  with PostReadEmails spawn_monitoring [of "''read emails from this subject line''" True w]
  show ?thesis
    by (auto simp: readEmails_def intro: monitoring_consistent)
qed (use start_consistent [of w] stop_consistent [of w] in \<open>auto split: prod.splits\<close>)

lemma run_consistent: "consistent w \<Longrightarrow> consistent (fst (sys_run w evs))"
proof (induction evs arbitrary: w)
  case Nil
  then show ?case by simp
next
  case (Cons ev evs)
  from step_consistent [OF Cons.prems, of ev] Cons.IH [of "fst (sys_step w ev)"]
  show ?case by (auto split: prod.splits)
qed

text \<open>
  C10.  Starting while monitoring only logs a warning and stopping while not monitoring
  does nothing: the process is left exactly as it was, with no further timer.  After any
  events from the start of the process (start and stop calls, requests, timers,
  callbacks), \<^verbatim>\<open>isMonitoring\<close> holds exactly when \<^verbatim>\<open>intervalId\<close> is set, and the
  timers armed are exactly that one.
\<close>

theorem monitoring_idempotent:
  "(isMonitoring (service w) \<longrightarrow> startEmailMonitoring w = (w, [Top (Log WarnAlreadyRunning)])) \<and>
   (\<not> isMonitoring (service w) \<longrightarrow> stopEmailMonitoring w = (w, [])) \<and>
   (isMonitoring (service (fst (sys_run init_world evs)))
      \<longleftrightarrow> intervalId (service (fst (sys_run init_world evs))) \<noteq> None) \<and>
   timers (fst (sys_run init_world evs)) =
     (case intervalId (service (fst (sys_run init_world evs))) of None \<Rightarrow> [] | Some t \<Rightarrow> [t])"
proof -
  have "consistent init_world" by (simp add: consistent_def init_world_def)
  from run_consistent [OF this, of evs] show ?thesis
    by (simp add: consistent_def startEmailMonitoring_def stopEmailMonitoring_def)
qed

theorem monitoring_idempotent_witness:
  "startEmailMonitoring world_on = (world_on, [Top (Log WarnAlreadyRunning)]) \<and>
   stopEmailMonitoring init_world = (init_world, []) \<and>
   isMonitoring (service (fst (sys_run init_world
      [PostStartMonitoring, PostStopMonitoring, PostStartMonitoring]))) \<and>
   timers (fst (sys_run init_world
      [PostStartMonitoring, PostStopMonitoring, PostStartMonitoring])) = [Timeout 1]"
  using monitoring_idempotent [of world_on "[PostStartMonitoring, PostStopMonitoring, PostStartMonitoring]"]
        monitoring_idempotent [of init_world "[]"]
  by (simp add: world_on_def init_world_def startEmailMonitoring_def stopEmailMonitoring_def
        checkForNewEmails_def spawn_def readEmailsBySubject_def Let_def)

section \<open>The processed set\<close>

lemma handle_fetch:
  "ImapFetch us \<in> set (snd (handle (c, this) ev)) \<Longrightarrow>
     \<forall>u \<in> set us. toString u \<notin> processedEmails this"
  by (cases ev)
     (auto simp: handler_defs Let_def playNotificationSound_def
           split: option.splits if_splits sum.splits)

lemma awaiting_no_fetch: "ImapFetch us \<notin> set (awaiting c out)"
  by (auto simp: awaiting_def split: outcome.splits)

lemma on_imap_fetch:
  assumes "In m (ImapFetch us) \<in> set (snd (on_imap n ev w))"
  shows "\<forall>u \<in> set us. toString u \<notin> processedEmails (service w)"
proof (cases "n < length (cycles w)")
  case True
  obtain c1 this1 acts where h: "handle (cycles w ! n, service w) ev = ((c1, this1), acts)"
    by (metis prod.exhaust)
  with assms True have "ImapFetch us \<in> set acts"
    by (auto simp: on_imap_def awaiting_no_fetch split: option.splits)
  with handle_fetch [of us "cycles w ! n" "service w" ev] h show ?thesis by simp
next
  case False
  with assms show ?thesis by (simp add: on_imap_def)
qed

lemma spawn_no_fetch: "In m (ImapFetch us) \<notin> set (snd (spawn subj manual w))"
  by (auto simp: spawn_def readEmailsBySubject_def)

lemma start_no_fetch: "In m (ImapFetch us) \<notin> set (snd (startEmailMonitoring w))"
  by (auto simp: startEmailMonitoring_def checkForNewEmails_def spawn_def readEmailsBySubject_def Let_def)

lemma stop_no_fetch: "In m (ImapFetch us) \<notin> set (snd (stopEmailMonitoring w))"
  by (auto simp: stopEmailMonitoring_def Let_def split: option.splits)

lemma step_fetch:
  assumes "In m (ImapFetch us) \<in> set (snd (sys_step w ev))"
  shows "\<forall>u \<in> set us. toString u \<notin> processedEmails (service w)"
proof (cases ev)
  case (Imap n e)
  with assms on_imap_fetch [of m us n e w] show ?thesis by simp
qed (use assms spawn_no_fetch [of m us] start_no_fetch [of m us w] stop_no_fetch [of m us w]
      in \<open>auto simp: checkForNewEmails_def readEmails_def testNotificationSound_def
            playNotificationSound_def split: prod.splits if_splits\<close>)

lemma on_imap_mono:
  "processedEmails (service w) \<subseteq> processedEmails (service (fst (on_imap n ev w)))"
proof (cases "n < length (cycles w)")
  case True
  obtain c1 this1 acts where h: "handle (cycles w ! n, service w) ev = ((c1, this1), acts)"
    by (metis prod.exhaust)
  with handle_service [of "cycles w ! n" "service w" ev] True show ?thesis
    by (simp add: on_imap_def)
next
  case False
  then show ?thesis by (simp add: on_imap_def)
qed

lemma step_mono:
  "processedEmails (service w) \<subseteq> processedEmails (service (fst (sys_step w ev)))"
proof (cases ev)
  case (Imap n e)
  with on_imap_mono [of w n e] show ?thesis by simp
qed (auto simp: startEmailMonitoring_def stopEmailMonitoring_def checkForNewEmails_def
       readEmails_def spawn_def readEmailsBySubject_def Let_def split: option.splits)

lemma run_mono:
  "processedEmails (service w) \<subseteq> processedEmails (service (fst (sys_run w evs)))"
proof (induction evs arbitrary: w)
  case Nil
  then show ?case by simp
next
  case (Cons ev evs)
  from step_mono [of w ev] Cons.IH [of "fst (sys_step w ev)"]
  show ?case by (auto split: prod.splits)
qed

lemma run_fetch:
  "In m (ImapFetch us) \<in> set (snd (sys_run w evs)) \<Longrightarrow> key \<in> processedEmails (service w)
     \<Longrightarrow> \<forall>u \<in> set us. toString u \<noteq> key"
proof (induction evs arbitrary: w)
  case Nil
  then show ?case by simp
next
  case (Cons ev evs)
  obtain w1 acts where s: "sys_step w ev = (w1, acts)" by (cases "sys_step w ev")
  obtain w2 rest where r: "sys_run w1 evs = (w2, rest)" by (cases "sys_run w1 evs")
  from Cons.prems(1) s r have "In m (ImapFetch us) \<in> set acts \<or> In m (ImapFetch us) \<in> set rest"
    by auto
  then show ?case
  proof
    assume "In m (ImapFetch us) \<in> set acts"
    with step_fetch [of m us w ev] s Cons.prems(2) show ?thesis by auto
  next
    assume a: "In m (ImapFetch us) \<in> set rest"
    from step_mono [of w ev] s Cons.prems(2) have "key \<in> processedEmails (service w1)" by auto
    with Cons.IH [of w1] a r show ?thesis by simp
  qed
qed

text \<open>
  C4, as the code has it.  The processed set never loses an identifier, and a message
  whose identifier is in it is left out of the new messages, and so of the fetch, of
  every cycle whose search completes afterwards.  (That \<^verbatim>\<open>processedEmails.add\<close> is
  called once for an identifier does not hold when cycles overlap.)
\<close>

theorem processed_never_fetched_again:
  "(key \<in> processedEmails (service w)
      \<longrightarrow> key \<in> processedEmails (service (fst (sys_run w evs)))) \<and>
   (In m (ImapFetch us) \<in> set (snd (sys_run w evs)) \<and> toString u \<in> processedEmails (service w)
      \<longrightarrow> u \<notin> set us)"
  using run_mono [of w evs] run_fetch [of m us w evs "toString u"]
  by blast

theorem processed_never_fetched_again_witness:
  "''7'' \<in> processedEmails (service (fst (sys_run world_seen7
      [PostReadEmails, Imap 0 Ready, Imap 0 (OpenBoxCb None 2), Imap 0 (SearchCb None (Some [7, 8]))]))) \<and>
   In 0 (ImapFetch [8]) \<in> set (snd (sys_run world_seen7
      [PostReadEmails, Imap 0 Ready, Imap 0 (OpenBoxCb None 2), Imap 0 (SearchCb None (Some [7, 8]))])) \<and>
   (7::nat) \<notin> set [8]"
  using processed_never_fetched_again [of "''7''" world_seen7
      "[PostReadEmails, Imap 0 Ready, Imap 0 (OpenBoxCb None 2), Imap 0 (SearchCb None (Some [7, 8]))]"
      0 "[8]" 7]
  by (simp add: world_seen7_def readEmails_def spawn_def readEmailsBySubject_def on_imap_def
        awaiting_def handler_defs Let_def playNotificationSound_def toString_7 toString_8)

text \<open>
  C4 as stated fails on its first half: when a manual check starts while the monitor's
  first check is in flight, both fetch message 7 and both call
  \<^verbatim>\<open>processedEmails.add\<close> with its identifier.
\<close>

theorem overlapping_cycles_add_twice:
  "length (filter (adds ''7'') (snd (sys_run init_world overlapping))) = 2 \<and>
   length (filter (fetches 7) (snd (sys_run init_world overlapping))) = 2"
  by (simp add: overlapping_def init_world_def startEmailMonitoring_def checkForNewEmails_def
        readEmails_def spawn_def readEmailsBySubject_def on_imap_def awaiting_def
        handler_defs Let_def playNotificationSound_def toString_7)

end
